theory Spec2Isabelle
  imports Main "HOL-Library.Word" "HOL-Library.Numeral_Type"
begin

section \<open>The contract MevResistAggregatorFHE\<close>

text \<open>
  A shallow embedding of \<^verbatim>\<open>contracts/mevResistAggregatorFHE.sol\<close>. Storage variables are the
  fields of a record, a Solidity mapping is a total function (an absent key reads as the
  zero value), a \<^verbatim>\<open>revert\<close> is the left injection of a sum, and the event log is a list that
  grows at each \<^verbatim>\<open>emit\<close>. Unsigned 256-bit integers are words; the compiler's checked
  arithmetic (pragma 0.8.24) is written out as a panic on overflow.
\<close>

subsection \<open>Data\<close>

type_synonym address = "160 word"
type_synonym uint256 = "256 word"
type_synonym uint32 = "32 word"
type_synonym bytes32 = "256 word"
type_synonym bytes = "8 word list"

text \<open>The encrypted types of the FHE library are handles of 32 bytes.\<close>

type_synonym euint32 = bytes32
type_synonym ebool = bytes32

record DecryptionContext =
  batchId :: uint256
  stateHash :: bytes32
  processed :: bool

datatype event =
    OwnershipTransferred address address
  | ProviderAdded address
  | ProviderRemoved address
  | Paused address
  | Unpaused address
  | CooldownSecondsSet uint256 uint256
  | BatchOpened uint256
  | BatchClosed uint256
  | DataSubmitted address uint256 bytes32
  | DecryptionRequested uint256 uint256
  | DecryptionCompleted uint256 uint256 uint256

text \<open>
  The nine errors the contract declares, then the reverts that come from elsewhere:
  \<open>Panic 17\<close> is the compiler's arithmetic overflow (code 0x11), \<open>Error msg\<close> is
  \<^verbatim>\<open>revert("...")\<close>, \<open>InvalidProof\<close> is the revert of \<^verbatim>\<open>FHE.checkSignatures\<close>, and
  \<open>DecodeFailure\<close> is the revert of \<^verbatim>\<open>abi.decode\<close> on malformed data.
\<close>

datatype error =
    NotOwner
  | NotProvider
  | PausedState
  | CooldownActive
  | BatchClosedOrInvalid
  | ReplayAttempt
  | StateMismatch
  | InvalidBatchId
  | InvalidCooldown
  | Panic nat
  | Error string
  | InvalidProof
  | DecodeFailure

record storage =
  owner :: address
  isProvider :: "address \<Rightarrow> bool"
  paused :: bool
  cooldownSeconds :: uint256
  lastSubmissionTime :: "address \<Rightarrow> uint256"
  lastDecryptionRequestTime :: "address \<Rightarrow> uint256"
  currentBatchId :: uint256
  isBatchOpen :: "uint256 \<Rightarrow> bool"
  decryptionContexts :: "uint256 \<Rightarrow> DecryptionContext"
  events :: "event list"

text \<open>
  What a call sees of its transaction: \<^verbatim>\<open>msg.sender\<close>, \<^verbatim>\<open>block.timestamp\<close>, and the
  request id the decryption oracle hands out if \<^verbatim>\<open>FHE.requestDecryption\<close> is called in it.
\<close>

record tx_env =
  msg_sender :: address
  block_timestamp :: uint256
  oracle_requestId :: uint256

text \<open>
  The imported library (\<^verbatim>\<open>@fhevm/solidity\<close>) and the hash are not part of the repository;
  they are parameters of the model. \<open>keccak256_encode cts a\<close> stands for
  \<^verbatim>\<open>keccak256(abi.encode(cts, a))\<close> and \<open>this_address\<close> for \<^verbatim>\<open>address(this)\<close>.
\<close>

record capabilities =
  this_address :: address
  keccak256_encode :: "bytes32 list \<Rightarrow> address \<Rightarrow> bytes32"
  asEuint32 :: "uint32 \<Rightarrow> euint32"
  isInitialized :: "euint32 \<Rightarrow> bool"
  fhe_add :: "euint32 \<Rightarrow> euint32 \<Rightarrow> euint32"
  fhe_ge :: "euint32 \<Rightarrow> euint32 \<Rightarrow> ebool"
  fhe_select :: "ebool \<Rightarrow> euint32 \<Rightarrow> euint32 \<Rightarrow> euint32"
  checkSignatures :: "uint256 \<Rightarrow> bytes \<Rightarrow> bytes \<Rightarrow> bool"

subsection \<open>Language primitives\<close>

definition emit :: "event \<Rightarrow> storage \<Rightarrow> storage" where
  "emit ev s = s\<lparr>events := events s @ [ev]\<rparr>"

definition checked_add :: "uint256 \<Rightarrow> uint256 \<Rightarrow> error + uint256" where
  "checked_add a b = (if unat a + unat b < 2 ^ 256 then Inr (a + b) else Inl (Panic 17))"

definition be_to_nat :: "bytes \<Rightarrow> nat" where
  "be_to_nat bs = foldl (\<lambda>acc b. acc * 256 + unat b) 0 bs"

text \<open>
  \<^verbatim>\<open>abi.decode(data, (uint32))\<close>: the first 32-byte word of the data, big-endian; the
  decoder reverts when the data is shorter than one word or the word does not fit 32 bits.
\<close>

definition abi_decode_uint32 :: "bytes \<Rightarrow> error + uint32" where
  "abi_decode_uint32 bs =
     (if length bs < 32 then Inl DecodeFailure
      else let v = be_to_nat (take 32 bs)
           in if v < 2 ^ 32 then Inr (word_of_nat v) else Inl DecodeFailure)"

definition toBytes32 :: "euint32 \<Rightarrow> bytes32" where
  "toBytes32 h = h"

subsection \<open>Modifiers\<close>

definition onlyOwner :: "tx_env \<Rightarrow> storage \<Rightarrow> (error + 'a) \<Rightarrow> error + 'a" where
  "onlyOwner e s body = (if msg_sender e \<noteq> owner s then Inl NotOwner else body)"

definition onlyProvider :: "tx_env \<Rightarrow> storage \<Rightarrow> (error + 'a) \<Rightarrow> error + 'a" where
  "onlyProvider e s body = (if \<not> isProvider s (msg_sender e) then Inl NotProvider else body)"

definition whenNotPaused :: "storage \<Rightarrow> (error + 'a) \<Rightarrow> error + 'a" where
  "whenNotPaused s body = (if paused s then Inl PausedState else body)"

definition respectCooldown :: "tx_env \<Rightarrow> storage \<Rightarrow> (error + 'a) \<Rightarrow> error + 'a" where
  "respectCooldown e s body =
     (case checked_add (lastSubmissionTime s (msg_sender e)) (cooldownSeconds s) of
        Inl err \<Rightarrow> Inl err
      | Inr deadline \<Rightarrow>
          if block_timestamp e < deadline then Inl CooldownActive else body)"

subsection \<open>Constructor and owner operations\<close>

definition zeroContext :: DecryptionContext where
  "zeroContext = \<lparr>batchId = 0, stateHash = 0, processed = False\<rparr>"

definition constructor :: "tx_env \<Rightarrow> storage" where
  "constructor e =
     emit (OwnershipTransferred 0 (msg_sender e))
       \<lparr>owner = msg_sender e,
        isProvider = (\<lambda>_. False),
        paused = False,
        cooldownSeconds = 0,
        lastSubmissionTime = (\<lambda>_. 0),
        lastDecryptionRequestTime = (\<lambda>_. 0),
        currentBatchId = 0,
        isBatchOpen = (\<lambda>_. False),
        decryptionContexts = (\<lambda>_. zeroContext),
        events = []\<rparr>"

definition transferOwnership :: "tx_env \<Rightarrow> address \<Rightarrow> storage \<Rightarrow> error + storage" where
  "transferOwnership e newOwner s =
     onlyOwner e s
       (let s1 = emit (OwnershipTransferred (owner s) newOwner) s
        in Inr (s1\<lparr>owner := newOwner\<rparr>))"

definition addProvider :: "tx_env \<Rightarrow> address \<Rightarrow> storage \<Rightarrow> error + storage" where
  "addProvider e provider s =
     onlyOwner e s
       (let s1 = s\<lparr>isProvider := (isProvider s)(provider := True)\<rparr>
        in Inr (emit (ProviderAdded provider) s1))"

definition removeProvider :: "tx_env \<Rightarrow> address \<Rightarrow> storage \<Rightarrow> error + storage" where
  "removeProvider e provider s =
     onlyOwner e s
       (let s1 = s\<lparr>isProvider := (isProvider s)(provider := False)\<rparr>
        in Inr (emit (ProviderRemoved provider) s1))"

definition setPaused :: "tx_env \<Rightarrow> bool \<Rightarrow> storage \<Rightarrow> error + storage" where
  "setPaused e p s =
     onlyOwner e s
       (if p then Inr (emit (Paused (msg_sender e)) (s\<lparr>paused := True\<rparr>))
        else Inr (emit (Unpaused (msg_sender e)) (s\<lparr>paused := False\<rparr>)))"

definition setCooldownSeconds :: "tx_env \<Rightarrow> uint256 \<Rightarrow> storage \<Rightarrow> error + storage" where
  "setCooldownSeconds e newCooldownSeconds s =
     onlyOwner e s
       (if newCooldownSeconds = cooldownSeconds s then Inl InvalidCooldown
        else let s1 = emit (CooldownSecondsSet (cooldownSeconds s) newCooldownSeconds) s
             in Inr (s1\<lparr>cooldownSeconds := newCooldownSeconds\<rparr>))"

subsection \<open>Batches and submissions\<close>

definition openBatch :: "tx_env \<Rightarrow> storage \<Rightarrow> error + storage" where
  "openBatch e s =
     onlyOwner e s (whenNotPaused s
       (case checked_add (currentBatchId s) 1 of
          Inl err \<Rightarrow> Inl err
        | Inr n \<Rightarrow>
            let s1 = s\<lparr>currentBatchId := n\<rparr>;
                s2 = s1\<lparr>isBatchOpen := (isBatchOpen s1)(currentBatchId s1 := True)\<rparr>
            in Inr (emit (BatchOpened (currentBatchId s2)) s2)))"

definition closeBatch :: "tx_env \<Rightarrow> uint256 \<Rightarrow> storage \<Rightarrow> error + storage" where
  "closeBatch e bid s =
     onlyOwner e s (whenNotPaused s
       (if \<not> isBatchOpen s bid then Inl BatchClosedOrInvalid
        else let s1 = s\<lparr>isBatchOpen := (isBatchOpen s)(bid := False)\<rparr>
             in Inr (emit (BatchClosed bid) s1)))"

definition submitEncryptedData ::
  "tx_env \<Rightarrow> uint256 \<Rightarrow> bytes32 \<Rightarrow> storage \<Rightarrow> error + storage" where
  "submitEncryptedData e bid encryptedData s =
     onlyProvider e s (whenNotPaused s (respectCooldown e s
       (if \<not> isBatchOpen s bid then Inl BatchClosedOrInvalid
        else let s1 = s\<lparr>lastSubmissionTime :=
                          (lastSubmissionTime s)(msg_sender e := block_timestamp e)\<rparr>
             in Inr (emit (DataSubmitted (msg_sender e) bid encryptedData) s1))))"

subsection \<open>Aggregation and the decryption request\<close>

definition hashCiphertexts :: "capabilities \<Rightarrow> bytes32 list \<Rightarrow> bytes32" where
  "hashCiphertexts ext cts = keccak256_encode ext cts (this_address ext)"

definition initIfNeeded :: "capabilities \<Rightarrow> euint32 \<times> euint32 \<Rightarrow> euint32 \<times> euint32" where
  "initIfNeeded ext encryptedValues =
     (let v0 = (if \<not> isInitialized ext (fst encryptedValues) then asEuint32 ext 0
                else fst encryptedValues);
          v1 = (if \<not> isInitialized ext (snd encryptedValues) then asEuint32 ext 0
                else snd encryptedValues)
      in (v0, v1))"

definition requireInitialized :: "capabilities \<Rightarrow> euint32 \<times> euint32 \<Rightarrow> (error + 'a) \<Rightarrow> error + 'a" where
  "requireInitialized ext encryptedValues body =
     (if \<not> isInitialized ext (fst encryptedValues) \<or> \<not> isInitialized ext (snd encryptedValues)
      then Inl (Error ''FHE state not initialized'')
      else body)"

text \<open>
  The local \<^verbatim>\<open>resultToDecrypt\<close> of \<^verbatim>\<open>aggregateAndRequestDecryption\<close>, computed from the pair
  after \<^verbatim>\<open>_initIfNeeded\<close>: the sum, its comparison with the threshold 100, and the selection
  of an encrypted 1 or 0.
\<close>

definition resultToDecrypt :: "capabilities \<Rightarrow> euint32 \<times> euint32 \<Rightarrow> euint32" where
  "resultToDecrypt ext encryptedValues =
     (let encryptedSum = fhe_add ext (fst encryptedValues) (snd encryptedValues);
          threshold = asEuint32 ext 100;
          isAboveThreshold = fhe_ge ext encryptedSum threshold
      in fhe_select ext isAboveThreshold (asEuint32 ext 1) (asEuint32 ext 0))"

text \<open>
  The pair is a storage reference handed in by the caller; the model takes its value and
  returns the value \<^verbatim>\<open>_initIfNeeded\<close> leaves there, beside the contract's own storage.
\<close>

definition aggregateAndRequestDecryption ::
  "capabilities \<Rightarrow> tx_env \<Rightarrow> uint256 \<Rightarrow> euint32 \<times> euint32 \<Rightarrow> storage
     \<Rightarrow> error + storage \<times> (euint32 \<times> euint32)" where
  "aggregateAndRequestDecryption ext e bid encryptedValues s =
     onlyProvider e s (whenNotPaused s
       (case checked_add (lastDecryptionRequestTime s (msg_sender e)) (cooldownSeconds s) of
          Inl err \<Rightarrow> Inl err
        | Inr deadline \<Rightarrow>
            if block_timestamp e < deadline then Inl CooldownActive
            else if \<not> isBatchOpen s bid then Inl BatchClosedOrInvalid
            else
              let s1 = s\<lparr>lastDecryptionRequestTime :=
                           (lastDecryptionRequestTime s)(msg_sender e := block_timestamp e)\<rparr>;
                  vals = initIfNeeded ext encryptedValues
              in requireInitialized ext vals
                   (let cts = [toBytes32 (resultToDecrypt ext vals)];
                        h = hashCiphertexts ext cts;
                        requestId = oracle_requestId e;
                        s2 = s1\<lparr>decryptionContexts := (decryptionContexts s1)
                               (requestId := \<lparr>batchId = bid, stateHash = h, processed = False\<rparr>)\<rparr>
                    in Inr (emit (DecryptionRequested requestId bid) s2, vals))))"

subsection \<open>The decryption callback\<close>

text \<open>
  \<^verbatim>\<open>ctsToVerify\<close> is a fresh array of one element, which Solidity fills with zero; nothing
  is written to it before it is hashed.
\<close>

definition myCallback ::
  "capabilities \<Rightarrow> tx_env \<Rightarrow> uint256 \<Rightarrow> bytes \<Rightarrow> bytes \<Rightarrow> storage \<Rightarrow> error + storage" where
  "myCallback ext e requestId cleartexts prf s =
     (let ctx = decryptionContexts s requestId
      in if processed ctx then Inl ReplayAttempt
         else
           let ctsToVerify = replicate 1 (0 :: bytes32);
               currentHash = hashCiphertexts ext ctsToVerify
           in if currentHash \<noteq> stateHash ctx then Inl StateMismatch
              else if \<not> checkSignatures ext requestId cleartexts prf then Inl InvalidProof
              else
                case abi_decode_uint32 cleartexts of
                  Inl err \<Rightarrow> Inl err
                | Inr result \<Rightarrow>
                    let s1 = s\<lparr>decryptionContexts := (decryptionContexts s)
                               (requestId := ctx\<lparr>processed := True\<rparr>)\<rparr>
                    in Inr (emit (DecryptionCompleted requestId
                                   (batchId (decryptionContexts s1 requestId)) (ucast result)) s1))"

subsection \<open>Transactions\<close>

datatype call =
    TransferOwnership address
  | AddProvider address
  | RemoveProvider address
  | SetPaused bool
  | SetCooldownSeconds uint256
  | OpenBatch
  | CloseBatch uint256
  | SubmitEncryptedData uint256 bytes32
  | AggregateAndRequestDecryption uint256 "euint32 \<times> euint32"
  | MyCallback uint256 bytes bytes

fun dispatch :: "capabilities \<Rightarrow> tx_env \<Rightarrow> call \<Rightarrow> storage \<Rightarrow> error + storage" where
  "dispatch ext e (TransferOwnership a) s = transferOwnership e a s"
| "dispatch ext e (AddProvider a) s = addProvider e a s"
| "dispatch ext e (RemoveProvider a) s = removeProvider e a s"
| "dispatch ext e (SetPaused p) s = setPaused e p s"
| "dispatch ext e (SetCooldownSeconds n) s = setCooldownSeconds e n s"
| "dispatch ext e OpenBatch s = openBatch e s"
| "dispatch ext e (CloseBatch b) s = closeBatch e b s"
| "dispatch ext e (SubmitEncryptedData b d) s = submitEncryptedData e b d s"
| "dispatch ext e (AggregateAndRequestDecryption b vals) s =
     map_sum id fst (aggregateAndRequestDecryption ext e b vals s)"
| "dispatch ext e (MyCallback r c p) s = myCallback ext e r c p s"

text \<open>A transaction that reverts leaves the storage and the log as they were.\<close>

definition transact :: "capabilities \<Rightarrow> tx_env \<Rightarrow> call \<Rightarrow> storage \<Rightarrow> error option \<times> storage" where
  "transact ext e c s =
     (case dispatch ext e c s of Inl err \<Rightarrow> (Some err, s) | Inr s' \<Rightarrow> (None, s'))"

fun run :: "capabilities \<Rightarrow> (tx_env \<times> call) list \<Rightarrow> storage \<Rightarrow> storage" where
  "run ext [] s = s"
| "run ext ((e, c) # tr) s = run ext tr (snd (transact ext e c s))"

subsection \<open>Traces and the batch ledger\<close>

text \<open>
  A transaction registers a request id when it is a call of
  \<^verbatim>\<open>aggregateAndRequestDecryption\<close> in which the oracle hands out that id.
\<close>

fun registers :: "uint256 \<Rightarrow> tx_env \<times> call \<Rightarrow> bool" where
  "registers rid (e, AggregateAndRequestDecryption b vals) = (oracle_requestId e = rid)"
| "registers rid (e, c) = False"

text \<open>
  What a log tells: the ids of its \<open>BatchOpened\<close> events, oldest first, and the number of
  its \<open>DecryptionCompleted\<close> events for a request id.
\<close>

primrec openedIds :: "event list \<Rightarrow> uint256 list" where
  "openedIds [] = []"
| "openedIds (ev # evs) =
     (case ev of BatchOpened n \<Rightarrow> n # openedIds evs | _ \<Rightarrow> openedIds evs)"

primrec completions :: "uint256 \<Rightarrow> event list \<Rightarrow> nat" where
  "completions rid [] = 0"
| "completions rid (ev # evs) =
     (case ev of
        DecryptionCompleted r b v \<Rightarrow>
          (if r = rid then Suc (completions rid evs) else completions rid evs)
      | _ \<Rightarrow> completions rid evs)"

text \<open>
  Invariants of the storage. The ids logged by \<open>BatchOpened\<close> are 1, 2, ... up to
  \<open>currentBatchId\<close>, and a batch that is open has been logged as opened; a batch that was
  opened and is closed; a request that is processed stores the placeholder hash.
\<close>

definition batchInv :: "storage \<Rightarrow> bool" where
  "batchInv s \<longleftrightarrow>
     openedIds (events s) = map word_of_nat [1 ..< Suc (unat (currentBatchId s))]
     \<and> (\<forall>i. isBatchOpen s i \<longrightarrow> i \<in> set (openedIds (events s)))"

definition closedInv :: "uint256 \<Rightarrow> storage \<Rightarrow> bool" where
  "closedInv i s \<longleftrightarrow> batchInv s \<and> i \<in> set (openedIds (events s)) \<and> \<not> isBatchOpen s i"

definition processedInv :: "capabilities \<Rightarrow> storage \<Rightarrow> bool" where
  "processedInv ext s \<longleftrightarrow>
     (\<forall>rid. processed (decryptionContexts s rid) \<longrightarrow>
        stateHash (decryptionContexts s rid) = hashCiphertexts ext [0])"

subsection \<open>A plaintext stand-in for the external capabilities\<close>

text \<open>
  For concrete runs: a handle is the plaintext plus one (so the zero handle is never a
  value), an encrypted boolean is 2 for true and 1 for false, the hash is a polynomial of
  the handles, and a proof is accepted when it is the single byte 1.
\<close>

definition stubCapabilities :: capabilities where
  "stubCapabilities =
     \<lparr>this_address = 0xC0FFEE,
      keccak256_encode = (\<lambda>cts a. foldr (\<lambda>c acc. c + 31 * acc) cts 7 + ucast a),
      asEuint32 = (\<lambda>n. ucast n + 1),
      isInitialized = (\<lambda>h. h \<noteq> 0),
      fhe_add = (\<lambda>a b. ucast ((ucast (a - 1) :: uint32) + ucast (b - 1)) + 1),
      fhe_ge = (\<lambda>a b. if (ucast (b - 1) :: uint32) \<le> ucast (a - 1) then 2 else 1),
      fhe_select = (\<lambda>c a b. if c = 2 then a else b),
      checkSignatures = (\<lambda>requestId cleartexts prf. prf = [1])\<rparr>"

definition stubDecrypt :: "euint32 \<Rightarrow> uint32" where
  "stubDecrypt h = ucast (h - 1)"

definition envOf :: "address \<Rightarrow> uint256 \<Rightarrow> uint256 \<Rightarrow> tx_env" where
  "envOf a t r = \<lparr>msg_sender = a, block_timestamp = t, oracle_requestId = r\<rparr>"

definition oneCleartext :: bytes where
  "oneCleartext = replicate 31 0 @ [1]"

definition pendingState :: storage where
  "pendingState =
     (constructor (envOf 0xA 1000 0))
       \<lparr>decryptionContexts := (\<lambda>_. zeroContext)
          (5 := \<lparr>batchId = 1, stateHash = hashCiphertexts stubCapabilities [0], processed = False\<rparr>)\<rparr>"

definition finalizedState :: storage where
  "finalizedState =
     pendingState
       \<lparr>decryptionContexts := (\<lambda>_. zeroContext)
          (5 := \<lparr>batchId = 1, stateHash = hashCiphertexts stubCapabilities [0], processed = True\<rparr>),
        events := events pendingState @ [DecryptionCompleted 5 1 1]\<rparr>"

text \<open>
  States reached by concrete runs: owner \<open>0xA\<close> deploys, adds the provider \<open>0xB\<close>
  and opens batch 1.
\<close>

definition readyState :: storage where
  "readyState =
     run stubCapabilities
       [(envOf 0xA 1000 0, AddProvider 0xB), (envOf 0xA 1001 0, OpenBatch)]
       (constructor (envOf 0xA 999 0))"

definition requestedState :: storage where
  "requestedState =
     snd (transact stubCapabilities (envOf 0xB 2000 5)
            (AggregateAndRequestDecryption 1 (11, 96)) readyState)"

definition secondBatchState :: storage where
  "secondBatchState = snd (transact stubCapabilities (envOf 0xA 1002 0) OpenBatch readyState)"

definition closedState :: storage where
  "closedState = snd (transact stubCapabilities (envOf 0xA 1002 0) (CloseBatch 1) readyState)"

definition pausedState :: storage where
  "pausedState = run stubCapabilities [(envOf 0xA 1100 0, SetPaused True)] readyState"

definition overflowState :: storage where
  "overflowState =
     run stubCapabilities
       [(envOf 0xB 1500 0, SubmitEncryptedData 1 0xD),
        (envOf 0xA 1600 0, SetCooldownSeconds 0xFFFFFFFFFFFFFFFFFFFFFFFFFFFFFFFFFFFFFFFFFFFFFFFFFFFFFFFFFFFFFFFF)]
       readyState"

definition cooldownState :: storage where
  "cooldownState =
     run stubCapabilities
       [(envOf 0xB 1500 0, SubmitEncryptedData 1 0xD),
        (envOf 0xA 1600 0, SetCooldownSeconds 60),
        (envOf 0xA 1601 0, OpenBatch)]
       readyState"

section \<open>Auxiliary facts\<close>

lemmas op_defs =
  transferOwnership_def addProvider_def removeProvider_def setPaused_def
  setCooldownSeconds_def openBatch_def closeBatch_def submitEncryptedData_def
  aggregateAndRequestDecryption_def myCallback_def
  onlyOwner_def onlyProvider_def whenNotPaused_def respectCooldown_def
  requireInitialized_def emit_def

lemma openedIds_append: "openedIds (xs @ ys) = openedIds xs @ openedIds ys"
  by (induction xs) (auto split: event.splits)

lemma checked_add_Inr:
  "checked_add a b = Inr c \<Longrightarrow> c = a + b \<and> unat c = unat a + unat b"
  by (auto simp: checked_add_def unat_word_ariths split: if_splits)

lemma batchInv_constructor: "batchInv (constructor e)"
  by (simp add: batchInv_def constructor_def emit_def)

lemma dispatch_batch_other:
  "dispatch ext e c s = Inr s' \<Longrightarrow> c \<noteq> OpenBatch \<Longrightarrow>
   currentBatchId s' = currentBatchId s \<and> openedIds (events s') = openedIds (events s)
   \<and> (\<forall>i. isBatchOpen s' i \<longrightarrow> isBatchOpen s i)"
  by (cases c)
     (auto simp: op_defs openedIds_append Let_def
           split: if_splits sum.splits prod.splits)

lemma openBatch_Inr:
  assumes "openBatch e s = Inr s'"
  shows "unat (currentBatchId s') = Suc (unat (currentBatchId s))"
    and "currentBatchId s' = currentBatchId s + 1"
    and "events s' = events s @ [BatchOpened (currentBatchId s')]"
    and "isBatchOpen s' = (isBatchOpen s)(currentBatchId s' := True)"
  using assms
  by (auto simp: op_defs Let_def dest!: checked_add_Inr split: if_splits sum.splits)

lemma batchInv_dispatch:
  assumes "batchInv s" and "dispatch ext e c s = Inr s'"
  shows "batchInv s'"
proof (cases "c = OpenBatch")
  case True
  with assms(2) have ob: "openBatch e s = Inr s'" by simp
  note f = openBatch_Inr [OF ob]
  let ?k = "unat (currentBatchId s)"
  have new: "word_of_nat (Suc ?k) = currentBatchId s'"
    using f(2) by simp
  have e1: "openedIds (events s') = openedIds (events s) @ [currentBatchId s']"
    using f(3) by (simp add: openedIds_append)
  have e2: "openedIds (events s) = map word_of_nat [1 ..< Suc ?k]"
    using assms(1) by (simp only: batchInv_def)
  have e3: "[1 ..< Suc (Suc ?k)] = [1 ..< Suc ?k] @ [Suc ?k]"
    by (rule upt_Suc_append) simp
  have a: "openedIds (events s') = map word_of_nat [1 ..< Suc (unat (currentBatchId s'))]"
    unfolding f(1) e3 e1 e2 using new by (simp del: upt_Suc)
  have b: "i \<in> set (openedIds (events s'))" if "isBatchOpen s' i" for i
  proof (cases "i = currentBatchId s'")
    case True
    then show ?thesis using e1 by simp
  next
    case False
    with that f(4) have "isBatchOpen s i" by simp
    with assms(1) have "i \<in> set (openedIds (events s))" unfolding batchInv_def by blast
    then show ?thesis using e1 by simp
  qed
  from a b show ?thesis by (simp only: batchInv_def) blast
next
  case False
  from dispatch_batch_other [OF assms(2) False] assms(1) show ?thesis
    by (auto simp: batchInv_def)
qed

lemma batchInv_transact: "batchInv s \<Longrightarrow> batchInv (snd (transact ext e c s))"
  by (auto simp: transact_def split: sum.splits dest: batchInv_dispatch)

lemma batchInv_run: "batchInv s \<Longrightarrow> batchInv (run ext tr s)"
  by (induction tr arbitrary: s) (auto simp: batchInv_transact)

lemma myCallback_Inr:
  assumes "myCallback ext e rid ct pf s = Inr s'"
  shows "\<not> processed (decryptionContexts s rid)"
    and "hashCiphertexts ext [0] = stateHash (decryptionContexts s rid)"
    and "checkSignatures ext rid ct pf"
    and "\<exists>result. abi_decode_uint32 ct = Inr result \<and>
           s' = s\<lparr>decryptionContexts := (decryptionContexts s)
                    (rid := (decryptionContexts s rid)\<lparr>processed := True\<rparr>),
                 events := events s @
                    [DecryptionCompleted rid (batchId (decryptionContexts s rid)) (ucast result)]\<rparr>"
  using assms
  by (auto simp: myCallback_def emit_def Let_def split: if_splits sum.splits)

lemma dispatch_context:
  assumes "dispatch ext e c s = Inr s'" and "\<not> registers rid (e, c)"
  shows "decryptionContexts s' rid = decryptionContexts s rid
         \<or> (decryptionContexts s' rid = (decryptionContexts s rid)\<lparr>processed := True\<rparr>
            \<and> hashCiphertexts ext [0] = stateHash (decryptionContexts s rid))"
proof (cases c)
  case (MyCallback r ct pf)
  with assms(1) have cb: "myCallback ext e r ct pf s = Inr s'" by simp
  from myCallback_Inr(2,4) [OF cb] show ?thesis
    by (cases "r = rid") auto
next
  case (AggregateAndRequestDecryption b vals)
  with assms show ?thesis
    by (auto simp: op_defs Let_def split: if_splits sum.splits)
qed (use assms in \<open>auto simp: op_defs Let_def split: if_splits sum.splits\<close>)

lemma transact_context:
  assumes "\<not> registers rid (e, c)"
  shows "decryptionContexts (snd (transact ext e c s)) rid = decryptionContexts s rid
         \<or> (decryptionContexts (snd (transact ext e c s)) rid
               = (decryptionContexts s rid)\<lparr>processed := True\<rparr>
            \<and> hashCiphertexts ext [0] = stateHash (decryptionContexts s rid))"
proof (cases "dispatch ext e c s")
  case (Inl err)
  then show ?thesis by (simp add: transact_def)
next
  case (Inr s')
  from dispatch_context [OF Inr assms] Inr show ?thesis by (simp add: transact_def)
qed

lemma processed_run:
  "processed (decryptionContexts s rid) \<Longrightarrow> \<forall>x\<in>set tr. \<not> registers rid x \<Longrightarrow>
   processed (decryptionContexts (run ext tr s) rid)"
proof (induction tr arbitrary: s)
  case Nil
  then show ?case by simp
next
  case (Cons x tr)
  obtain e c where x: "x = (e, c)" by (cases x)
  from Cons.prems(2) x have nr: "\<not> registers rid (e, c)" by simp
  from transact_context [OF nr, of ext s] Cons.prems(1)
  have "processed (decryptionContexts (snd (transact ext e c s)) rid)" by auto
  with Cons.IH Cons.prems(2) x show ?case by simp
qed

lemma mismatch_run:
  "stateHash (decryptionContexts s rid) \<noteq> hashCiphertexts ext [0] \<Longrightarrow>
   \<forall>x\<in>set tr. \<not> registers rid x \<Longrightarrow>
   decryptionContexts (run ext tr s) rid = decryptionContexts s rid"
proof (induction tr arbitrary: s)
  case Nil
  then show ?case by simp
next
  case (Cons x tr)
  obtain e c where x: "x = (e, c)" by (cases x)
  from Cons.prems(2) x have nr: "\<not> registers rid (e, c)" by simp
  from transact_context [OF nr, of ext s] Cons.prems(1)
  have same: "decryptionContexts (snd (transact ext e c s)) rid = decryptionContexts s rid"
    by auto
  with Cons.IH [of "snd (transact ext e c s)"] Cons.prems x show ?case by simp
qed

lemma be_to_nat_zeros: "foldl (\<lambda>acc b. acc * 256 + unat b) 0 (replicate n (0 :: 8 word)) = 0"
  by (induction n) auto

lemma decode_oneCleartext: "abi_decode_uint32 oneCleartext = Inr 1"
  by (simp add: abi_decode_uint32_def oneCleartext_def be_to_nat_def be_to_nat_zeros)

lemma finalize_pending:
  "myCallback stubCapabilities (envOf 0xB 2000 0) 5 oneCleartext [1] pendingState = Inr finalizedState"
  by (simp add: myCallback_def decode_oneCleartext pendingState_def finalizedState_def
        stubCapabilities_def emit_def hashCiphertexts_def constructor_def)

lemma completions_append:
  "completions rid (xs @ ys) = completions rid xs + completions rid ys"
  by (induction xs) (auto split: event.splits)

lemma dispatch_completions:
  assumes "dispatch ext e c s = Inr s'"
  shows "completions rid (events s') = completions rid (events s)
         \<or> (\<exists>ct pf. c = MyCallback rid ct pf)"
proof (cases c)
  case (MyCallback r ct pf)
  with assms have cb: "myCallback ext e r ct pf s = Inr s'" by simp
  from myCallback_Inr(4) [OF cb] MyCallback show ?thesis
    by (cases "r = rid") (auto simp: completions_append)
qed (use assms in \<open>auto simp: op_defs Let_def completions_append split: if_splits sum.splits\<close>)

lemma myCallback_mismatch:
  "stateHash (decryptionContexts s rid) \<noteq> hashCiphertexts ext [0] \<Longrightarrow>
   \<not> processed (decryptionContexts s rid) \<Longrightarrow>
   myCallback ext e rid ct pf s = Inl StateMismatch"
  by (auto simp: myCallback_def)

lemma myCallback_mismatch_not_Inr:
  "stateHash (decryptionContexts s rid) \<noteq> hashCiphertexts ext [0] \<Longrightarrow>
   myCallback ext e rid ct pf s \<noteq> Inr s'"
  using myCallback_Inr(2) [of ext e rid ct pf s s'] by auto

lemma mismatch_run_completions:
  "stateHash (decryptionContexts s rid) \<noteq> hashCiphertexts ext [0] \<Longrightarrow>
   \<forall>x\<in>set tr. \<not> registers rid x \<Longrightarrow>
   completions rid (events (run ext tr s)) = completions rid (events s)"
proof (induction tr arbitrary: s)
  case Nil
  then show ?case by simp
next
  case (Cons x tr)
  obtain e c where x: "x = (e, c)" by (cases x)
  let ?s1 = "snd (transact ext e c s)"
  from Cons.prems(2) x have nr: "\<not> registers rid (e, c)" by simp
  from transact_context [OF nr, of ext s] Cons.prems(1)
  have same: "decryptionContexts ?s1 rid = decryptionContexts s rid" by auto
  have ev: "completions rid (events ?s1) = completions rid (events s)"
  proof (cases "dispatch ext e c s")
    case (Inl err)
    then show ?thesis by (simp add: transact_def)
  next
    case (Inr s')
    have "c \<noteq> MyCallback rid ct pf" for ct pf
      using Inr myCallback_mismatch_not_Inr [OF Cons.prems(1), where e = e and s' = s']
      by auto
    with dispatch_completions [OF Inr, of rid] Inr
    show ?thesis by (auto simp: transact_def)
  qed
  from Cons.IH [of ?s1] same Cons.prems ev x show ?case by simp
qed

lemma aggregate_Inr:
  assumes "aggregateAndRequestDecryption ext e bid vals s = Inr (s', vals')"
  shows "vals' = initIfNeeded ext vals"
    and "decryptionContexts s' (oracle_requestId e) =
           \<lparr>batchId = bid,
            stateHash = hashCiphertexts ext [toBytes32 (resultToDecrypt ext (initIfNeeded ext vals))],
            processed = False\<rparr>"
  using assms
  by (auto simp: op_defs Let_def split: if_splits sum.splits)

lemma opened_le:
  assumes "batchInv s" and "i \<in> set (openedIds (events s))"
  shows "unat i \<le> unat (currentBatchId s)"
proof -
  from assms obtain j where j: "i = word_of_nat j" "j < Suc (unat (currentBatchId s))"
    unfolding batchInv_def by (auto simp del: upt_Suc)
  have "unat (word_of_nat j :: uint256) \<le> j"
    by (simp add: unat_of_nat)
  with j show ?thesis by simp
qed

lemma closedInv_dispatch:
  assumes "closedInv i s" and "dispatch ext e c s = Inr s'"
  shows "closedInv i s'"
proof (cases "c = OpenBatch")
  case True
  with assms(2) have ob: "openBatch e s = Inr s'" by simp
  note f = openBatch_Inr [OF ob]
  from assms(1) have inv: "batchInv s" and mem: "i \<in> set (openedIds (events s))"
    and cl: "\<not> isBatchOpen s i"
    by (simp_all add: closedInv_def)
  from opened_le [OF inv mem] f(1) have "i \<noteq> currentBatchId s'" by auto
  with cl f(4) have "\<not> isBatchOpen s' i" by simp
  moreover from mem f(3) have "i \<in> set (openedIds (events s'))"
    by (simp add: openedIds_append)
  moreover note batchInv_dispatch [OF inv assms(2)]
  ultimately show ?thesis by (simp add: closedInv_def)
next
  case False
  from dispatch_batch_other [OF assms(2) False] assms(1) batchInv_dispatch [OF _ assms(2)]
  show ?thesis by (auto simp: closedInv_def)
qed

lemma closedInv_run: "closedInv i s \<Longrightarrow> closedInv i (run ext tr s)"
proof (induction tr arbitrary: s)
  case Nil
  then show ?case by simp
next
  case (Cons x tr)
  obtain e c where x: "x = (e, c)" by (cases x)
  have "closedInv i (snd (transact ext e c s))"
    using Cons.prems closedInv_dispatch [of i s ext e c]
    by (auto simp: transact_def split: sum.splits)
  with Cons.IH x show ?case by simp
qed

lemma closeBatch_Inr:
  assumes "closeBatch e i s = Inr s'"
  shows "isBatchOpen s i" and "\<not> isBatchOpen s' i"
  using assms by (auto simp: op_defs Let_def split: if_splits)

lemma processedInv_constructor: "processedInv ext (constructor e)"
  by (simp add: processedInv_def constructor_def emit_def zeroContext_def)

lemma processedInv_dispatch:
  assumes "processedInv ext s" and "dispatch ext e c s = Inr s'"
  shows "processedInv ext s'"
proof (cases c)
  case (MyCallback r ct pf)
  with assms(2) have cb: "myCallback ext e r ct pf s = Inr s'" by simp
  from myCallback_Inr(2,4) [OF cb] assms(1) show ?thesis
    by (auto simp: processedInv_def)
next
  case (AggregateAndRequestDecryption b vals)
  with assms show ?thesis
    by (auto simp: processedInv_def op_defs Let_def split: if_splits sum.splits)
qed (use assms in \<open>auto simp: processedInv_def op_defs Let_def split: if_splits sum.splits\<close>)

lemma processedInv_run: "processedInv ext s \<Longrightarrow> processedInv ext (run ext tr s)"
proof (induction tr arbitrary: s)
  case Nil
  then show ?case by simp
next
  case (Cons x tr)
  obtain e c where x: "x = (e, c)" by (cases x)
  have "processedInv ext (snd (transact ext e c s))"
    using Cons.prems processedInv_dispatch [of ext s e c]
    by (auto simp: transact_def split: sum.splits)
  with Cons.IH x show ?case by simp
qed

subsection \<open>Facts about the concrete runs\<close>

lemmas stub_defs = stubCapabilities_def envOf_def constructor_def zeroContext_def
  hashCiphertexts_def toBytes32_def resultToDecrypt_def initIfNeeded_def checked_add_def
  transact_def

lemma readyState_facts:
  "isProvider readyState 0xB" "\<not> paused readyState" "isBatchOpen readyState 1"
  "cooldownSeconds readyState = 0" "lastDecryptionRequestTime readyState 0xB = 0"
  "owner readyState = 0xA" "currentBatchId readyState = 1"
  by (simp_all add: readyState_def op_defs stub_defs)

lemma readyState_last: "lastSubmissionTime readyState 0xB = 0"
  by (simp add: readyState_def op_defs stub_defs)

lemma readyState_events: "openedIds (events readyState) = [1]"
  by (simp add: readyState_def op_defs stub_defs)

lemma request_registered:
  "aggregateAndRequestDecryption stubCapabilities (envOf 0xB 2000 5) 1 (11, 96) readyState
     = Inr (requestedState, (11, 96))"
  by (simp add: requestedState_def aggregateAndRequestDecryption_def onlyProvider_def
        whenNotPaused_def requireInitialized_def readyState_facts stub_defs Let_def)

lemma open_second: "openBatch (envOf 0xA 1002 0) readyState = Inr secondBatchState"
  by (simp add: secondBatchState_def openBatch_def onlyOwner_def whenNotPaused_def
        readyState_facts stub_defs)

lemma close_first: "closeBatch (envOf 0xA 1002 0) 1 readyState = Inr closedState"
  by (simp add: closedState_def closeBatch_def onlyOwner_def whenNotPaused_def
        readyState_facts stub_defs)

lemma pausedState_facts:
  "paused pausedState" "owner pausedState = 0xA" "isProvider pausedState 0xB"
  "decryptionContexts pausedState = (\<lambda>_. zeroContext)"
  by (simp_all add: pausedState_def setPaused_def onlyOwner_def emit_def transact_def
        envOf_def readyState_facts)
     (simp add: readyState_def op_defs stub_defs)

lemma overflowState_facts:
  "isProvider overflowState 0xB" "\<not> paused overflowState" "isBatchOpen overflowState 1"
  "lastSubmissionTime overflowState 0xB = 1500" "cooldownSeconds overflowState = 0xFFFFFFFFFFFFFFFFFFFFFFFFFFFFFFFFFFFFFFFFFFFFFFFFFFFFFFFFFFFFFFFF"
  by (simp_all add: overflowState_def op_defs stub_defs readyState_facts readyState_last)

lemma cooldownState_facts:
  "isProvider cooldownState 0xB" "\<not> paused cooldownState" "isBatchOpen cooldownState 2"
  "lastSubmissionTime cooldownState 0xB = 1500" "cooldownSeconds cooldownState = 60"
  by (simp_all add: cooldownState_def op_defs stub_defs readyState_facts readyState_last)

subsection \<open>The decision value under a homomorphic capability\<close>

text \<open>
  Whatever the capability, if a decryption \<open>dec\<close> (and \<open>decb\<close> for booleans) commutes with
  its operations, the handle sent for decryption holds 1 when the 32-bit sum of the two slots
  reaches 100 and 0 otherwise.
\<close>

lemma decision_plaintext:
  assumes "\<And>n. dec (asEuint32 ext n) = n"
    and "\<And>a b. dec (fhe_add ext a b) = dec a + dec b"
    and "\<And>a b. decb (fhe_ge ext a b) = (dec b \<le> dec a)"
    and "\<And>c a b. dec (fhe_select ext c a b) = (if decb c then dec a else dec b)"
  shows "dec (resultToDecrypt ext vals)
           = (if (100 :: uint32) \<le> dec (fst vals) + dec (snd vals) then 1 else 0)"
  by (simp add: resultToDecrypt_def assms)

section \<open>The replay guard\<close>

text \<open>
  C1. Once the \<open>processed\<close> flag of a request id is set, the callback for that id fails
  with \<open>ReplayAttempt\<close> whatever the payload and whoever calls, after any number of other
  transactions that do not register the id anew, and the storage and the log (which holds
  the disclosed result) stay as they are. A callback that succeeds sets the flag, so a
  request is finalized at most once.
\<close>

theorem callback_at_most_once:
  "(processed (decryptionContexts s rid) \<longrightarrow> (\<forall>x\<in>set tr. \<not> registers rid x) \<longrightarrow>
      myCallback ext e rid ct pf (run ext tr s) = Inl ReplayAttempt
      \<and> transact ext e (MyCallback rid ct pf) (run ext tr s) = (Some ReplayAttempt, run ext tr s))
   \<and> (myCallback ext e0 rid ct0 pf0 s0 = Inr s \<longrightarrow> processed (decryptionContexts s rid))"
proof (intro conjI impI)
  assume p: "processed (decryptionContexts s rid)" and nr: "\<forall>x\<in>set tr. \<not> registers rid x"
  from processed_run [OF p nr]
  show r: "myCallback ext e rid ct pf (run ext tr s) = Inl ReplayAttempt"
    by (simp add: myCallback_def)
  then show "transact ext e (MyCallback rid ct pf) (run ext tr s) = (Some ReplayAttempt, run ext tr s)"
    by (simp add: transact_def)
next
  assume "myCallback ext e0 rid ct0 pf0 s0 = Inr s"
  from myCallback_Inr(4) [OF this] show "processed (decryptionContexts s rid)"
    by auto
qed

theorem callback_at_most_once_witness:
  "processed (decryptionContexts finalizedState 5)
   \<and> \<not> registers 5 (envOf 0xA 3000 6, SetPaused True)
   \<and> myCallback stubCapabilities (envOf 0xB 2000 0) 5 oneCleartext [1] pendingState = Inr finalizedState
   \<and> transact stubCapabilities (envOf 0xC 4000 0) (MyCallback 5 oneCleartext [1])
        (run stubCapabilities [(envOf 0xA 3000 6, SetPaused True)] finalizedState)
      = (Some ReplayAttempt, run stubCapabilities [(envOf 0xA 3000 6, SetPaused True)] finalizedState)"
  using finalize_pending
    callback_at_most_once [where s = finalizedState and rid = 5
      and tr = "[(envOf 0xA 3000 6, SetPaused True)]" and ext = stubCapabilities
      and e = "envOf 0xC 4000 0" and ct = oneCleartext and pf = "[1]"
      and ?e0.0 = "envOf 0xB 2000 0" and ?ct0.0 = oneCleartext and ?pf0.0 = "[1]"
      and ?s0.0 = pendingState]
  by simp

section \<open>The pause flag\<close>

text \<open>
  C2, as the contract has it. While \<open>paused\<close> holds, \<open>openBatch\<close> and \<open>closeBatch\<close>
  called by the owner and \<open>submitEncryptedData\<close> and \<open>aggregateAndRequestDecryption\<close>
  called by a provider revert with \<open>PausedState\<close>, and from any caller the four revert.
  \<open>myCallback\<close> has no \<open>whenNotPaused\<close> modifier: it does on a paused storage what it does
  on the same storage unpaused. \<open>setPaused False\<close> by the owner clears the flag and logs
  \<open>Unpaused\<close>; the cooldown timestamps and the batches are as they were.
\<close>

theorem pause_gate:
  assumes "paused s"
  shows "(msg_sender e = owner s \<longrightarrow>
            openBatch e s = Inl PausedState \<and> closeBatch e b s = Inl PausedState)
    \<and> (isProvider s (msg_sender e) \<longrightarrow>
            submitEncryptedData e b d s = Inl PausedState
            \<and> aggregateAndRequestDecryption ext e b vals s = Inl PausedState)
    \<and> isl (openBatch e s) \<and> isl (closeBatch e b s)
    \<and> isl (submitEncryptedData e b d s) \<and> isl (aggregateAndRequestDecryption ext e b vals s)
    \<and> myCallback ext e rid ct pf s
         = map_sum id (\<lambda>t. t\<lparr>paused := True\<rparr>) (myCallback ext e rid ct pf (s\<lparr>paused := False\<rparr>))
    \<and> (msg_sender e = owner s \<longrightarrow>
          setPaused e False s
            = Inr (s\<lparr>paused := False, events := events s @ [Unpaused (msg_sender e)]\<rparr>))"
proof -
  have cb: "myCallback ext e rid ct pf s
         = map_sum id (\<lambda>t. t\<lparr>paused := True\<rparr>) (myCallback ext e rid ct pf (s\<lparr>paused := False\<rparr>))"
    using assms by (simp add: myCallback_def emit_def Let_def split: sum.splits)
  show ?thesis
    using assms cb
    by (simp add: openBatch_def closeBatch_def submitEncryptedData_def
          aggregateAndRequestDecryption_def setPaused_def onlyOwner_def onlyProvider_def
          whenNotPaused_def emit_def)
qed

theorem pause_gate_witness:
  "paused pausedState
   \<and> msg_sender (envOf 0xA 1200 0) = owner pausedState
   \<and> openBatch (envOf 0xA 1200 0) pausedState = Inl PausedState
   \<and> closeBatch (envOf 0xA 1200 0) 1 pausedState = Inl PausedState
   \<and> isProvider pausedState (msg_sender (envOf 0xB 1200 6))
   \<and> submitEncryptedData (envOf 0xB 1200 6) 1 0xD pausedState = Inl PausedState
   \<and> aggregateAndRequestDecryption stubCapabilities (envOf 0xB 1200 6) 1 (11, 96) pausedState
       = Inl PausedState
   \<and> setPaused (envOf 0xA 1200 0) False pausedState
       = Inr (pausedState\<lparr>paused := False, events := events pausedState @ [Unpaused 0xA]\<rparr>)"
proof -
  have own: "msg_sender (envOf 0xA 1200 0) = owner pausedState"
    by (simp add: pausedState_facts envOf_def)
  have prov: "isProvider pausedState (msg_sender (envOf 0xB 1200 6))"
    by (simp add: pausedState_facts envOf_def)
  have caller: "msg_sender (envOf 0xA 1200 0) = 0xA"
    by (simp add: envOf_def)
  note a = pause_gate [OF pausedState_facts(1), where e = "envOf 0xA 1200 0" and b = 1]
  note b = pause_gate [OF pausedState_facts(1), where e = "envOf 0xB 1200 6" and b = 1
      and d = "0xD" and ext = stubCapabilities and vals = "(11, 96)"]
  from a own have a1: "openBatch (envOf 0xA 1200 0) pausedState = Inl PausedState"
    and a2: "closeBatch (envOf 0xA 1200 0) 1 pausedState = Inl PausedState"
    and a3: "setPaused (envOf 0xA 1200 0) False pausedState
       = Inr (pausedState\<lparr>paused := False,
                events := events pausedState @ [Unpaused (msg_sender (envOf 0xA 1200 0))]\<rparr>)"
    by blast+
  from b prov have b1: "submitEncryptedData (envOf 0xB 1200 6) 1 0xD pausedState = Inl PausedState"
    and b2: "aggregateAndRequestDecryption stubCapabilities (envOf 0xB 1200 6) 1 (11, 96) pausedState
       = Inl PausedState"
    by blast+
  from a3 have a3': "setPaused (envOf 0xA 1200 0) False pausedState
       = Inr (pausedState\<lparr>paused := False, events := events pausedState @ [Unpaused 0xA]\<rparr>)"
    unfolding caller .
  show ?thesis
    by (intro conjI pausedState_facts(1) own a1 a2 prov b1 b2 a3')
qed

text \<open>
  C2 as written, with the callback also reverting with \<open>PausedState\<close> while the
  system is paused, fails: on a paused storage the callback for an unregistered id reverts
  with \<open>StateMismatch\<close>, and a pending request whose stored hash is the placeholder hash is
  finalized.
\<close>

theorem callback_not_paused_counterexample:
  "paused pausedState
   \<and> myCallback stubCapabilities (envOf 0xC 3000 0) 7 oneCleartext [1] pausedState
       = Inl StateMismatch
   \<and> paused (pendingState\<lparr>paused := True\<rparr>)
   \<and> myCallback stubCapabilities (envOf 0xB 2000 0) 5 oneCleartext [1]
         (pendingState\<lparr>paused := True\<rparr>)
       = Inr (finalizedState\<lparr>paused := True\<rparr>)"
proof -
  have "myCallback stubCapabilities (envOf 0xC 3000 0) 7 oneCleartext [1] pausedState
       = Inl StateMismatch"
    by (simp add: myCallback_def pausedState_facts zeroContext_def hashCiphertexts_def
          stubCapabilities_def)
  moreover have "myCallback stubCapabilities (envOf 0xB 2000 0) 5 oneCleartext [1]
         (pendingState\<lparr>paused := True\<rparr>)
       = Inr (finalizedState\<lparr>paused := True\<rparr>)"
    by (simp add: myCallback_def decode_oneCleartext pendingState_def finalizedState_def
          stubCapabilities_def emit_def hashCiphertexts_def constructor_def)
  ultimately show ?thesis
    by (simp add: pausedState_facts)
qed

section \<open>Rejections of the callback\<close>

text \<open>
  C3. In every storage reached from deployment, when the hash the callback recomputes
  differs from the stored \<open>stateHash\<close> of the request id, the call reverts with
  \<open>StateMismatch\<close>, and \<open>processed\<close> was false and stays false. Every revert of the
  callback leaves the storage and the log as they were. The flag is set and
  \<open>DecryptionCompleted\<close> is logged only in a call that has passed the replay check, the
  hash check and the proof check.
\<close>

theorem mismatch_keeps_pending:
  "(s = run ext tr (constructor e0) \<longrightarrow>
      hashCiphertexts ext [0] \<noteq> stateHash (decryptionContexts s rid) \<longrightarrow>
      transact ext e (MyCallback rid ct pf) s = (Some StateMismatch, s)
      \<and> \<not> processed (decryptionContexts s rid)
      \<and> \<not> processed (decryptionContexts (snd (transact ext e (MyCallback rid ct pf) s)) rid))
   \<and> (myCallback ext e rid ct pf s = Inl err \<longrightarrow>
        snd (transact ext e (MyCallback rid ct pf) s) = s)
   \<and> (myCallback ext e rid ct pf s = Inr s' \<longrightarrow>
        \<not> processed (decryptionContexts s rid)
        \<and> hashCiphertexts ext [0] = stateHash (decryptionContexts s rid)
        \<and> checkSignatures ext rid ct pf
        \<and> processed (decryptionContexts s' rid)
        \<and> (\<exists>result. events s' = events s @
              [DecryptionCompleted rid (batchId (decryptionContexts s rid)) result]))"
proof (intro conjI impI)
  assume cb: "myCallback ext e rid ct pf s = Inr s'"
  note f = myCallback_Inr [OF cb]
  show "\<not> processed (decryptionContexts s rid)" by (rule f(1))
  show "hashCiphertexts ext [0] = stateHash (decryptionContexts s rid)" by (rule f(2))
  show "checkSignatures ext rid ct pf" by (rule f(3))
  from f(4) show "processed (decryptionContexts s' rid)" by auto
  from f(4) show "\<exists>result. events s' = events s @
              [DecryptionCompleted rid (batchId (decryptionContexts s rid)) result]" by auto
next
  assume "myCallback ext e rid ct pf s = Inl err"
  then show "snd (transact ext e (MyCallback rid ct pf) s) = s"
    by (simp add: transact_def)
next
  assume r: "s = run ext tr (constructor e0)"
    and h: "hashCiphertexts ext [0] \<noteq> stateHash (decryptionContexts s rid)"
  have "processedInv ext s"
    unfolding r by (rule processedInv_run) (rule processedInv_constructor)
  with h show np: "\<not> processed (decryptionContexts s rid)"
    by (auto simp: processedInv_def)
  from h np have "myCallback ext e rid ct pf s = Inl StateMismatch"
    by (intro myCallback_mismatch) simp_all
  then show t: "transact ext e (MyCallback rid ct pf) s = (Some StateMismatch, s)"
    by (simp add: transact_def)
  from np t show "\<not> processed (decryptionContexts (snd (transact ext e (MyCallback rid ct pf) s)) rid)"
    by simp
qed

theorem mismatch_keeps_pending_witness:
  "requestedState = run stubCapabilities
       [(envOf 0xA 1000 0, AddProvider 0xB), (envOf 0xA 1001 0, OpenBatch),
        (envOf 0xB 2000 5, AggregateAndRequestDecryption 1 (11, 96))]
       (constructor (envOf 0xA 999 0))
   \<and> hashCiphertexts stubCapabilities [0] \<noteq> stateHash (decryptionContexts requestedState 5)
   \<and> transact stubCapabilities (envOf 0xC 3000 0) (MyCallback 5 oneCleartext [1]) requestedState
       = (Some StateMismatch, requestedState)
   \<and> \<not> processed (decryptionContexts requestedState 5)
   \<and> myCallback stubCapabilities (envOf 0xC 3000 0) 5 oneCleartext [1] requestedState
       = Inl StateMismatch
   \<and> myCallback stubCapabilities (envOf 0xB 2000 0) 5 oneCleartext [1] pendingState = Inr finalizedState
   \<and> checkSignatures stubCapabilities 5 oneCleartext [1]
   \<and> processed (decryptionContexts finalizedState 5)"
proof -
  have r: "requestedState = run stubCapabilities
       [(envOf 0xA 1000 0, AddProvider 0xB), (envOf 0xA 1001 0, OpenBatch),
        (envOf 0xB 2000 5, AggregateAndRequestDecryption 1 (11, 96))]
       (constructor (envOf 0xA 999 0))"
    by (simp add: requestedState_def readyState_def)
  have h: "hashCiphertexts stubCapabilities [0] \<noteq> stateHash (decryptionContexts requestedState 5)"
    using aggregate_Inr(2) [OF request_registered] by (simp add: stub_defs)
  note t1 = mismatch_keeps_pending [where s = requestedState and rid = 5
      and ext = stubCapabilities and e = "envOf 0xC 3000 0" and ct = oneCleartext and pf = "[1]"
      and err = StateMismatch and s' = finalizedState and ?e0.0 = "envOf 0xA 999 0"
      and tr = "[(envOf 0xA 1000 0, AddProvider 0xB), (envOf 0xA 1001 0, OpenBatch),
        (envOf 0xB 2000 5, AggregateAndRequestDecryption 1 (11, 96))]"]
  note t2 = mismatch_keeps_pending [where s = pendingState and rid = 5
      and ext = stubCapabilities and e = "envOf 0xB 2000 0" and ct = oneCleartext and pf = "[1]"
      and err = StateMismatch and s' = finalizedState and ?e0.0 = "envOf 0xA 999 0" and tr = "[]"]
  from t1 r h
  have a: "transact stubCapabilities (envOf 0xC 3000 0) (MyCallback 5 oneCleartext [1]) requestedState
       = (Some StateMismatch, requestedState)"
    and b: "\<not> processed (decryptionContexts requestedState 5)"
    by blast+
  from a have c: "myCallback stubCapabilities (envOf 0xC 3000 0) 5 oneCleartext [1] requestedState
       = Inl StateMismatch"
    by (simp add: transact_def split: sum.splits)
  from t2 finalize_pending
  have d: "checkSignatures stubCapabilities 5 oneCleartext [1]"
    and f: "processed (decryptionContexts finalizedState 5)"
    by blast+
  show ?thesis
    by (intro conjI r h a b c finalize_pending d f)
qed

section \<open>Unregistered request ids\<close>

text \<open>
  C4, as the contract has it. There is no \<open>UnknownRequest\<close> error and no test for an
  absent context: a request id that no call has registered reads as the zero context, and
  the callback for it reverts with \<open>StateMismatch\<close>, provided the placeholder hash is not
  the zero word.
\<close>

theorem unregistered_request_mismatch:
  assumes "hashCiphertexts ext [0] \<noteq> 0" and "\<forall>x\<in>set tr. \<not> registers rid x"
  shows "decryptionContexts (run ext tr (constructor e0)) rid = zeroContext
         \<and> myCallback ext e rid ct pf (run ext tr (constructor e0)) = Inl StateMismatch"
proof -
  have z: "decryptionContexts (constructor e0) rid = zeroContext"
    by (simp add: constructor_def emit_def)
  with assms(1) have "stateHash (decryptionContexts (constructor e0) rid) \<noteq> hashCiphertexts ext [0]"
    by (simp add: zeroContext_def)
  from mismatch_run [OF this assms(2)] z
  have "decryptionContexts (run ext tr (constructor e0)) rid = zeroContext" by simp
  with assms(1) show ?thesis
    by (simp add: myCallback_def zeroContext_def)
qed

theorem unregistered_request_mismatch_witness:
  "hashCiphertexts stubCapabilities [0] \<noteq> 0
   \<and> \<not> registers 7 (envOf 0xA 1000 0, AddProvider 0xB)
   \<and> \<not> registers 7 (envOf 0xB 2000 5, AggregateAndRequestDecryption 1 (11, 96))
   \<and> myCallback stubCapabilities (envOf 0xC 3000 0) 7 oneCleartext [1]
        (run stubCapabilities
           [(envOf 0xA 1000 0, AddProvider 0xB),
            (envOf 0xB 2000 5, AggregateAndRequestDecryption 1 (11, 96))]
           (constructor (envOf 0xA 999 0)))
       = Inl StateMismatch"
proof -
  have h: "hashCiphertexts stubCapabilities [0] \<noteq> 0"
    by (simp add: hashCiphertexts_def stubCapabilities_def)
  have r: "\<forall>x\<in>set [(envOf 0xA 1000 0, AddProvider 0xB),
            (envOf 0xB 2000 5, AggregateAndRequestDecryption 1 (11, 96))]. \<not> registers 7 x"
    by (simp add: envOf_def)
  from unregistered_request_mismatch [OF h r] h r show ?thesis
    by simp
qed

text \<open>
  C4 as written fails on the freshly deployed contract: the callback for the
  unregistered id 7 reverts with \<open>StateMismatch\<close>.
\<close>

theorem unknown_request_counterexample:
  "decryptionContexts (constructor (envOf 0xA 999 0)) 7 = zeroContext
   \<and> myCallback stubCapabilities (envOf 0xC 3000 0) 7 oneCleartext [1]
        (constructor (envOf 0xA 999 0)) = Inl StateMismatch"
  by (simp add: myCallback_def constructor_def emit_def zeroContext_def
        hashCiphertexts_def stubCapabilities_def)

section \<open>The placeholder hash\<close>

text \<open>
  C5. After \<open>aggregateAndRequestDecryption\<close> has registered a request whose ciphertext
  handle is not zero, and when the hash tells the handle's one-element list from the
  one-element list of zero, every later callback for that request id reverts with
  \<open>StateMismatch\<close>, whatever the payload and whatever other transactions come between
  (short of registering the id anew): \<open>processed\<close> stays false and no
  \<open>DecryptionCompleted\<close> for the id is added to the log.
\<close>

theorem placeholder_blocks_finalization:
  assumes reg: "aggregateAndRequestDecryption ext e0 bid vals s0 = Inr (s, vals')"
    and nz: "toBytes32 (resultToDecrypt ext vals') \<noteq> 0"
    and inj: "inj_on (hashCiphertexts ext) {[toBytes32 (resultToDecrypt ext vals')], [0]}"
    and nr: "\<forall>x\<in>set tr. \<not> registers (oracle_requestId e0) x"
  shows "myCallback ext e (oracle_requestId e0) ct pf (run ext tr s) = Inl StateMismatch
         \<and> \<not> processed (decryptionContexts (run ext tr s) (oracle_requestId e0))
         \<and> completions (oracle_requestId e0) (events (run ext tr s))
             = completions (oracle_requestId e0) (events s)"
proof -
  let ?rid = "oracle_requestId e0"
  let ?h = "toBytes32 (resultToDecrypt ext vals')"
  from aggregate_Inr [OF reg]
  have ctx: "decryptionContexts s ?rid =
               \<lparr>batchId = bid, stateHash = hashCiphertexts ext [?h], processed = False\<rparr>"
    by simp
  have "hashCiphertexts ext [?h] \<noteq> hashCiphertexts ext [0]"
  proof
    assume "hashCiphertexts ext [?h] = hashCiphertexts ext [0]"
    with inj have "[?h] = [0]" by (auto dest: inj_onD)
    with nz show False by simp
  qed
  with ctx have mm: "stateHash (decryptionContexts s ?rid) \<noteq> hashCiphertexts ext [0]"
    by simp
  from mismatch_run [OF mm nr]
  have same: "decryptionContexts (run ext tr s) ?rid = decryptionContexts s ?rid" .
  from same ctx mm have "myCallback ext e ?rid ct pf (run ext tr s) = Inl StateMismatch"
    by (intro myCallback_mismatch) simp_all
  moreover from same ctx have "\<not> processed (decryptionContexts (run ext tr s) ?rid)"
    by simp
  moreover note mismatch_run_completions [OF mm nr]
  ultimately show ?thesis by simp
qed

theorem placeholder_blocks_finalization_witness:
  "aggregateAndRequestDecryption stubCapabilities (envOf 0xB 2000 5) 1 (11, 96) readyState
     = Inr (requestedState, (11, 96))
   \<and> toBytes32 (resultToDecrypt stubCapabilities (11, 96)) \<noteq> 0
   \<and> hashCiphertexts stubCapabilities [toBytes32 (resultToDecrypt stubCapabilities (11, 96))]
       \<noteq> hashCiphertexts stubCapabilities [0]
   \<and> \<not> registers 5 (envOf 0xA 2500 0, CloseBatch 1)
   \<and> myCallback stubCapabilities (envOf 0xC 3000 0) 5 oneCleartext [1]
        (run stubCapabilities [(envOf 0xA 2500 0, CloseBatch 1)] requestedState)
       = Inl StateMismatch
   \<and> \<not> processed (decryptionContexts
          (run stubCapabilities [(envOf 0xA 2500 0, CloseBatch 1)] requestedState) 5)"
proof -
  have nz: "toBytes32 (resultToDecrypt stubCapabilities (11, 96)) \<noteq> 0"
    by (simp add: stub_defs)
  have ne: "hashCiphertexts stubCapabilities [toBytes32 (resultToDecrypt stubCapabilities (11, 96))]
       \<noteq> hashCiphertexts stubCapabilities [0]"
    by (simp add: stub_defs)
  have inj: "inj_on (hashCiphertexts stubCapabilities)
               {[toBytes32 (resultToDecrypt stubCapabilities (11, 96))], [0]}"
    using ne by (auto simp: inj_on_def)
  have nr: "\<forall>x\<in>set [(envOf 0xA 2500 0, CloseBatch 1)].
              \<not> registers (oracle_requestId (envOf 0xB 2000 5)) x"
    by simp
  have rid: "oracle_requestId (envOf 0xB 2000 5) = 5"
    by (simp add: envOf_def)
  from placeholder_blocks_finalization [OF request_registered nz inj nr,
      of "envOf 0xC 3000 0" oneCleartext "[1]"]
    request_registered nz ne
  show ?thesis by (simp add: rid)
qed

section \<open>Batch ids\<close>

text \<open>
  C6. In every storage reached from deployment, the ids logged by \<open>BatchOpened\<close> are
  1, 2, ... up to \<open>currentBatchId\<close> in this order; a successful \<open>openBatch\<close> allocates
  the next id, which was never used before, and marks it open; an id that was never opened
  is not open; a batch that has been closed is never open again, whatever follows; and
  \<open>closeBatch\<close> by the owner of an unpaused contract, on an id that is not open, reverts
  with \<open>BatchClosedOrInvalid\<close>.
\<close>

theorem batch_ids_sequential:
  assumes "s = run ext tr (constructor e0)"
  shows "openedIds (events s) = map word_of_nat [1 ..< Suc (unat (currentBatchId s))]
    \<and> (openBatch e s = Inr s' \<longrightarrow>
         unat (currentBatchId s') = Suc (unat (currentBatchId s))
         \<and> events s' = events s @ [BatchOpened (currentBatchId s')]
         \<and> isBatchOpen s' (currentBatchId s')
         \<and> currentBatchId s' \<notin> set (openedIds (events s)))
    \<and> (i \<notin> set (openedIds (events s)) \<longrightarrow> \<not> isBatchOpen s i)
    \<and> (closeBatch e i s = Inr s'' \<longrightarrow> \<not> isBatchOpen (run ext tr' s'') i)
    \<and> (msg_sender e = owner s \<longrightarrow> \<not> paused s \<longrightarrow> \<not> isBatchOpen s i \<longrightarrow>
         closeBatch e i s = Inl BatchClosedOrInvalid)"
proof -
  have inv: "batchInv s"
    unfolding assms by (rule batchInv_run) (rule batchInv_constructor)
  have p1: "openedIds (events s) = map word_of_nat [1 ..< Suc (unat (currentBatchId s))]"
    using inv unfolding batchInv_def by blast
  have p2: "unat (currentBatchId s') = Suc (unat (currentBatchId s))
         \<and> events s' = events s @ [BatchOpened (currentBatchId s')]
         \<and> isBatchOpen s' (currentBatchId s')
         \<and> currentBatchId s' \<notin> set (openedIds (events s))" if ob: "openBatch e s = Inr s'"
  proof -
    note f = openBatch_Inr [OF ob]
    have "currentBatchId s' \<notin> set (openedIds (events s))"
    proof
      assume "currentBatchId s' \<in> set (openedIds (events s))"
      from opened_le [OF inv this] f(1) show False by simp
    qed
    with f show ?thesis by simp
  qed
  have p3: "\<not> isBatchOpen s i" if "i \<notin> set (openedIds (events s))"
    using inv that unfolding batchInv_def by blast
  have p4: "\<not> isBatchOpen (run ext tr' s'') i" if cb: "closeBatch e i s = Inr s''"
  proof -
    note f = closeBatch_Inr [OF cb]
    from cb have d: "dispatch ext e (CloseBatch i) s = Inr s''" by simp
    from inv f(1) have mem: "i \<in> set (openedIds (events s))"
      unfolding batchInv_def by blast
    from dispatch_batch_other [OF d] mem
    have "i \<in> set (openedIds (events s''))" by simp
    with batchInv_dispatch [OF inv d] f(2) have "closedInv i s''"
      by (simp add: closedInv_def)
    from closedInv_run [OF this] show ?thesis
      by (simp add: closedInv_def)
  qed
  have p5: "closeBatch e i s = Inl BatchClosedOrInvalid"
    if "msg_sender e = owner s" "\<not> paused s" "\<not> isBatchOpen s i"
    using that by (simp add: closeBatch_def onlyOwner_def whenNotPaused_def)
  from p1 p2 p3 p4 p5 show ?thesis by blast
qed

theorem batch_ids_sequential_witness:
  "readyState = run stubCapabilities
       [(envOf 0xA 1000 0, AddProvider 0xB), (envOf 0xA 1001 0, OpenBatch)]
       (constructor (envOf 0xA 999 0))
   \<and> openedIds (events readyState) = [1]
   \<and> openBatch (envOf 0xA 1002 0) readyState = Inr secondBatchState
   \<and> currentBatchId secondBatchState = 2
   \<and> isBatchOpen secondBatchState 2
   \<and> 9 \<notin> set (openedIds (events readyState))
   \<and> \<not> isBatchOpen readyState 9
   \<and> closeBatch (envOf 0xA 1002 0) 1 readyState = Inr closedState
   \<and> \<not> isBatchOpen (run stubCapabilities [(envOf 0xA 1003 0, OpenBatch)] closedState) 1
   \<and> msg_sender (envOf 0xA 1002 0) = owner readyState
   \<and> \<not> paused readyState
   \<and> closeBatch (envOf 0xA 1002 0) 9 readyState = Inl BatchClosedOrInvalid"
proof -
  note t1 = batch_ids_sequential [OF readyState_def, where e = "envOf 0xA 1002 0"
      and s' = secondBatchState and i = 9 and s'' = closedState
      and tr' = "[(envOf 0xA 1003 0, OpenBatch)]"]
  note t2 = batch_ids_sequential [OF readyState_def, where e = "envOf 0xA 1002 0"
      and s' = secondBatchState and i = 1 and s'' = closedState
      and tr' = "[(envOf 0xA 1003 0, OpenBatch)]"]
  have own: "msg_sender (envOf 0xA 1002 0) = owner readyState"
    by (simp add: readyState_facts envOf_def)
  have nine: "9 \<notin> set (openedIds (events readyState))"
    by (simp add: readyState_events)
  from t1 open_second
  have two: "unat (currentBatchId secondBatchState) = Suc (unat (currentBatchId readyState))"
    and op2: "isBatchOpen secondBatchState (currentBatchId secondBatchState)"
    by blast+
  have "currentBatchId secondBatchState = word_of_nat (unat (currentBatchId secondBatchState))"
    by simp
  also have "\<dots> = 2" unfolding two by (simp add: readyState_facts)
  finally have cur: "currentBatchId secondBatchState = 2" .
  from t1 nine have n9: "\<not> isBatchOpen readyState 9" by blast
  from t2 close_first
  have cl: "\<not> isBatchOpen (run stubCapabilities [(envOf 0xA 1003 0, OpenBatch)] closedState) 1"
    by blast
  from t1 own readyState_facts(2) n9
  have rej: "closeBatch (envOf 0xA 1002 0) 9 readyState = Inl BatchClosedOrInvalid"
    by blast
  from op2 cur have op2': "isBatchOpen secondBatchState 2" by simp
  show ?thesis
    by (intro conjI readyState_def readyState_events open_second cur op2' nine n9 close_first
          cl own readyState_facts(2) rej)
qed

section \<open>The disclosed decision\<close>

text \<open>
  C7. With the plaintext stand-in: an uninitialized slot is replaced by an encrypted zero;
  for the slots holding 10 and 95 the only handle sent for decryption holds 1, and for 10
  and 50 it holds 0. But the callback that delivers the cleartext 1 for the registered
  request, with a proof the oracle accepts, reverts with \<open>StateMismatch\<close> and leaves the
  storage as it was: the decision is never disclosed.
\<close>

theorem decision_never_delivered:
  "stubDecrypt (fst (initIfNeeded stubCapabilities (11, 96))) = 10
   \<and> stubDecrypt (snd (initIfNeeded stubCapabilities (11, 96))) = 95
   \<and> stubDecrypt (resultToDecrypt stubCapabilities (initIfNeeded stubCapabilities (11, 96))) = 1
   \<and> stubDecrypt (resultToDecrypt stubCapabilities (initIfNeeded stubCapabilities (11, 51))) = 0
   \<and> initIfNeeded stubCapabilities (0, 96) = (asEuint32 stubCapabilities 0, 96)
   \<and> aggregateAndRequestDecryption stubCapabilities (envOf 0xB 2000 5) 1 (11, 96) readyState
       = Inr (requestedState, (11, 96))
   \<and> abi_decode_uint32 oneCleartext = Inr 1
   \<and> checkSignatures stubCapabilities 5 oneCleartext [1]
   \<and> transact stubCapabilities (envOf 0xC 3000 0) (MyCallback 5 oneCleartext [1]) requestedState
       = (Some StateMismatch, requestedState)"
proof -
  have "stateHash (decryptionContexts requestedState 5) \<noteq> hashCiphertexts stubCapabilities [0]"
       "\<not> processed (decryptionContexts requestedState 5)"
    using aggregate_Inr(2) [OF request_registered]
    by (simp_all add: stub_defs)
  then have "myCallback stubCapabilities (envOf 0xC 3000 0) 5 oneCleartext [1] requestedState
               = Inl StateMismatch"
    by (rule myCallback_mismatch)
  then show ?thesis
    using request_registered decode_oneCleartext
    by (simp add: stubDecrypt_def stub_defs)
qed

section \<open>The submission cooldown\<close>

text \<open>
  C8, as the contract has it. For a provider on an unpaused contract, when
  \<open>lastSubmissionTime[caller] + cooldownSeconds\<close> fits 256 bits: a submission before that
  time reverts with \<open>CooldownActive\<close>, to whichever batch; a submission at or after it, to
  an open batch, succeeds and records the time of the call for the caller alone. When the
  sum overflows the call reverts with the arithmetic panic. No other operation writes
  \<open>lastSubmissionTime\<close>.
\<close>

theorem submission_cooldown:
  assumes "isProvider s (msg_sender e)" and "\<not> paused s"
  shows
    "(unat (lastSubmissionTime s (msg_sender e)) + unat (cooldownSeconds s) < 2 ^ 256 \<longrightarrow>
        (unat (block_timestamp e)
           < unat (lastSubmissionTime s (msg_sender e)) + unat (cooldownSeconds s) \<longrightarrow>
         submitEncryptedData e b d s = Inl CooldownActive)
        \<and> (unat (lastSubmissionTime s (msg_sender e)) + unat (cooldownSeconds s)
             \<le> unat (block_timestamp e) \<longrightarrow> isBatchOpen s b \<longrightarrow>
           submitEncryptedData e b d s
             = Inr (s\<lparr>lastSubmissionTime :=
                        (lastSubmissionTime s)(msg_sender e := block_timestamp e),
                      events := events s @ [DataSubmitted (msg_sender e) b d]\<rparr>)))
     \<and> (2 ^ 256 \<le> unat (lastSubmissionTime s (msg_sender e)) + unat (cooldownSeconds s) \<longrightarrow>
          submitEncryptedData e b d s = Inl (Panic 17))
     \<and> (submitEncryptedData e b d s = Inr s' \<longrightarrow>
          lastSubmissionTime s'
            = (lastSubmissionTime s)(msg_sender e := block_timestamp e))
     \<and> ((\<forall>b' d'. c \<noteq> SubmitEncryptedData b' d') \<longrightarrow>
          lastSubmissionTime (snd (transact ext e' c s)) = lastSubmissionTime s)"
proof (intro conjI impI)
  assume nofl: "unat (lastSubmissionTime s (msg_sender e)) + unat (cooldownSeconds s) < 2 ^ 256"
  then have dl: "unat (lastSubmissionTime s (msg_sender e) + cooldownSeconds s)
                   = unat (lastSubmissionTime s (msg_sender e)) + unat (cooldownSeconds s)"
    by (simp add: unat_word_ariths)
  {
    assume "unat (block_timestamp e)
           < unat (lastSubmissionTime s (msg_sender e)) + unat (cooldownSeconds s)"
    with dl have "block_timestamp e < lastSubmissionTime s (msg_sender e) + cooldownSeconds s"
      by (simp add: word_less_nat_alt)
    with assms nofl show "submitEncryptedData e b d s = Inl CooldownActive"
      by (simp add: submitEncryptedData_def onlyProvider_def whenNotPaused_def
            respectCooldown_def checked_add_def)
  }
  {
    assume "unat (lastSubmissionTime s (msg_sender e)) + unat (cooldownSeconds s)
             \<le> unat (block_timestamp e)" and op: "isBatchOpen s b"
    with dl have "\<not> block_timestamp e < lastSubmissionTime s (msg_sender e) + cooldownSeconds s"
      by (simp add: word_less_nat_alt)
    with assms nofl op show "submitEncryptedData e b d s
             = Inr (s\<lparr>lastSubmissionTime :=
                        (lastSubmissionTime s)(msg_sender e := block_timestamp e),
                      events := events s @ [DataSubmitted (msg_sender e) b d]\<rparr>)"
      by (simp add: submitEncryptedData_def onlyProvider_def whenNotPaused_def
            respectCooldown_def checked_add_def emit_def)
  }
next
  assume "2 ^ 256 \<le> unat (lastSubmissionTime s (msg_sender e)) + unat (cooldownSeconds s)"
  with assms show "submitEncryptedData e b d s = Inl (Panic 17)"
    by (simp add: submitEncryptedData_def onlyProvider_def whenNotPaused_def
          respectCooldown_def checked_add_def)
next
  assume "submitEncryptedData e b d s = Inr s'"
  then show "lastSubmissionTime s' = (lastSubmissionTime s)(msg_sender e := block_timestamp e)"
    by (auto simp: submitEncryptedData_def onlyProvider_def whenNotPaused_def
          respectCooldown_def emit_def split: if_splits sum.splits)
next
  assume ns: "\<forall>b' d'. c \<noteq> SubmitEncryptedData b' d'"
  show "lastSubmissionTime (snd (transact ext e' c s)) = lastSubmissionTime s"
  proof (cases c)
    case (MyCallback r ct pf)
    then show ?thesis
      by (auto simp: transact_def dest!: myCallback_Inr(4) split: sum.splits)
  qed (use ns in \<open>auto simp: transact_def op_defs Let_def split: if_splits sum.splits\<close>)
qed

theorem submission_cooldown_witness:
  "isProvider cooldownState (msg_sender (envOf 0xB 1559 0))
   \<and> \<not> paused cooldownState
   \<and> lastSubmissionTime cooldownState 0xB = 1500
   \<and> cooldownSeconds cooldownState = 60
   \<and> isBatchOpen cooldownState 2
   \<and> submitEncryptedData (envOf 0xB 1559 0) 2 0xD cooldownState = Inl CooldownActive
   \<and> submitEncryptedData (envOf 0xB 1560 0) 2 0xD cooldownState
       = Inr (cooldownState\<lparr>lastSubmissionTime := (lastSubmissionTime cooldownState)(0xB := 1560),
                events := events cooldownState @ [DataSubmitted 0xB 2 0xD]\<rparr>)
   \<and> isProvider overflowState (msg_sender (envOf 0xB 1501 0))
   \<and> \<not> paused overflowState
   \<and> submitEncryptedData (envOf 0xB 1501 0) 1 0xD overflowState = Inl (Panic 17)
   \<and> lastSubmissionTime
         (snd (transact stubCapabilities (envOf 0xA 1700 0) (CloseBatch 2) cooldownState))
       = lastSubmissionTime cooldownState"
proof -
  have env: "msg_sender (envOf 0xB 1559 0) = 0xB" "msg_sender (envOf 0xB 1560 0) = 0xB"
    "msg_sender (envOf 0xB 1501 0) = 0xB"
    "block_timestamp (envOf 0xB 1559 0) = 1559" "block_timestamp (envOf 0xB 1560 0) = 1560"
    by (simp_all add: envOf_def)
  have p1: "isProvider cooldownState (msg_sender (envOf 0xB 1559 0))"
    and p2: "isProvider cooldownState (msg_sender (envOf 0xB 1560 0))"
    and p3: "isProvider overflowState (msg_sender (envOf 0xB 1501 0))"
    by (simp_all add: env cooldownState_facts overflowState_facts)
  note np = cooldownState_facts(2)
  note t1 = submission_cooldown [OF p1 np, where b = 2 and d = "0xD"
      and c = "CloseBatch 2" and ext = stubCapabilities and e' = "envOf 0xA 1700 0"
      and s' = cooldownState]
  note t2 = submission_cooldown [OF p2 np, where b = 2 and d = "0xD"
      and c = "CloseBatch 2" and ext = stubCapabilities and e' = "envOf 0xA 1700 0"
      and s' = cooldownState]
  note t3 = submission_cooldown [OF p3 overflowState_facts(2), where b = 1 and d = "0xD"
      and c = "CloseBatch 2" and ext = stubCapabilities and e' = "envOf 0xA 1700 0"
      and s' = cooldownState]
  have early: "submitEncryptedData (envOf 0xB 1559 0) 2 0xD cooldownState = Inl CooldownActive"
    using t1 [THEN conjunct1] by (simp add: env cooldownState_facts)
  have exact: "submitEncryptedData (envOf 0xB 1560 0) 2 0xD cooldownState
       = Inr (cooldownState\<lparr>lastSubmissionTime := (lastSubmissionTime cooldownState)(0xB := 1560),
                events := events cooldownState @ [DataSubmitted 0xB 2 0xD]\<rparr>)"
    using t2 [THEN conjunct1] by (simp add: env cooldownState_facts)
  have ovf: "submitEncryptedData (envOf 0xB 1501 0) 1 0xD overflowState = Inl (Panic 17)"
    using t3 [THEN conjunct2, THEN conjunct1] by (simp add: env overflowState_facts)
  have other: "lastSubmissionTime
         (snd (transact stubCapabilities (envOf 0xA 1700 0) (CloseBatch 2) cooldownState))
       = lastSubmissionTime cooldownState"
    using t1 [THEN conjunct2, THEN conjunct2, THEN conjunct2] by simp
  show ?thesis
    by (intro conjI p1 np cooldownState_facts(4) cooldownState_facts(5) cooldownState_facts(3)
          early exact p3 overflowState_facts(2) ovf other)
qed

text \<open>
  C8 as written fails when the sum overflows: after a submission at time 1500 the
  owner sets the cooldown to the largest value; the provider's submission one second later
  reverts with the arithmetic panic, not with \<open>CooldownActive\<close>.
\<close>

theorem cooldown_overflow_counterexample:
  "isProvider overflowState 0xB \<and> \<not> paused overflowState \<and> isBatchOpen overflowState 1
   \<and> lastSubmissionTime overflowState 0xB = 1500
   \<and> unat (1501 :: uint256) - unat (1500 :: uint256) < unat (cooldownSeconds overflowState)
   \<and> submitEncryptedData (envOf 0xB 1501 0) 1 0xD overflowState = Inl (Panic 17)"
  by (simp add: overflowState_facts submitEncryptedData_def onlyProvider_def whenNotPaused_def
        respectCooldown_def checked_add_def envOf_def)

section \<open>Configuration\<close>

text \<open>
  C9. Called by the owner, \<open>setCooldownSeconds n\<close> reverts with \<open>InvalidCooldown\<close> when
  \<open>n\<close> is the current value; otherwise it logs \<open>CooldownSecondsSet\<close> with the old and the
  new value and stores \<open>n\<close>.
\<close>

theorem setCooldownSeconds_noop_rejected:
  assumes "msg_sender e = owner s"
  shows "setCooldownSeconds e n s =
           (if n = cooldownSeconds s then Inl InvalidCooldown
            else Inr (s\<lparr>events := events s @ [CooldownSecondsSet (cooldownSeconds s) n],
                        cooldownSeconds := n\<rparr>))"
  using assms by (simp add: setCooldownSeconds_def onlyOwner_def emit_def)

theorem setCooldownSeconds_noop_rejected_witness:
  "msg_sender (envOf 0xA 1000 0) = owner (constructor (envOf 0xA 1000 0))
   \<and> setCooldownSeconds (envOf 0xA 1000 0) 0 (constructor (envOf 0xA 1000 0)) = Inl InvalidCooldown
   \<and> map_sum id cooldownSeconds
        (setCooldownSeconds (envOf 0xA 1000 0) 60 (constructor (envOf 0xA 1000 0))) = Inr 60"
  using setCooldownSeconds_noop_rejected [of "envOf 0xA 1000 0" "constructor (envOf 0xA 1000 0)" 0]
    setCooldownSeconds_noop_rejected [of "envOf 0xA 1000 0" "constructor (envOf 0xA 1000 0)" 60]
  by (simp add: envOf_def constructor_def emit_def)

section \<open>Who may call the callback\<close>

text \<open>
  C10. The outcome of \<open>myCallback\<close> and the storage it leaves do not depend on the caller:
  the call succeeds exactly when the request is not yet processed, the placeholder hash
  equals the stored hash, the proof is accepted and the cleartexts decode.
\<close>

theorem myCallback_ignores_caller:
  "transact ext (e\<lparr>msg_sender := a\<rparr>) (MyCallback rid ct pf) s
     = transact ext (e\<lparr>msg_sender := b\<rparr>) (MyCallback rid ct pf) s
   \<and> (\<not> isl (myCallback ext (e\<lparr>msg_sender := a\<rparr>) rid ct pf s)) =
       (\<not> processed (decryptionContexts s rid)
        \<and> hashCiphertexts ext [0] = stateHash (decryptionContexts s rid)
        \<and> checkSignatures ext rid ct pf
        \<and> \<not> isl (abi_decode_uint32 ct))"
  by (auto simp: transact_def myCallback_def Let_def split: sum.splits)

end
